theory Spec2Isabelle
  imports Complex_Main "HOL-Library.AList" "HOL-Library.Log_Nat"
begin

section \<open>Data model\<close>

text \<open>
  The inventory service keeps all of its state in Python dictionaries. A dictionary is
  modelled as an association list whose order is the insertion order of the keys:
  \<open>k in d\<close> is \<open>map_of d k \<noteq> None\<close>, \<open>d[k] = v\<close> is \<open>AList.update k v d\<close> (an
  existing key keeps its place, a new key goes to the end), \<open>del d[k]\<close> is
  \<open>AList.delete k d\<close>, and an in-place change of the value stored under \<open>k\<close> is
  \<open>AList.map_entry k f d\<close>. Python integers are unbounded, hence \<open>int\<close>.

  A clock reading (\<open>datetime.now()\<close>, \<open>datetime.utcnow()\<close>) is an input of the
  operation that makes it. Time is counted in microseconds, the resolution of
  \<open>datetime\<close>, so that \<open>timedelta(seconds=ttl)\<close> is \<open>ttl * 1000000\<close>.
\<close>

type_synonym time = int

datatype py_error = KeyError

text \<open>\<open>cache_manager.py\<close>, class \<open>CacheManager\<close>: the four attributes set by \<open>__init__\<close>.\<close>

record 'v CacheManager =
  cache :: "(string \<times> 'v) list"
  expiry :: "(string \<times> time) list"
  hits :: nat
  misses :: nat

text \<open>One entry of \<open>InventoryManager.inventory\<close>: the inner dictionary of an item.\<close>

record item =
  item_id :: int
  name :: string
  stock :: int
  reserved :: int
  sku :: string

text \<open>
  The dictionaries built by \<open>get_low_stock_items\<close> (an item with its \<open>available\<close>) and
  by \<open>get_item\<close> (the same with \<open>last_checked\<close>).
\<close>

record item_available = item +
  available :: int

record item_snapshot = item_available +
  last_checked :: time

text \<open>The value stored under an order id in \<open>InventoryManager.reservations\<close>.\<close>

record reservation =
  items :: "(int \<times> int) list"
  timestamp :: time

text \<open>An element of \<open>InventoryManager.adjustment_log\<close>.\<close>

record log_entry =
  log_item_id :: int
  log_old_stock :: int
  log_new_stock :: int
  log_adjustment :: int
  log_reason :: string
  log_timestamp :: time

text \<open>\<open>inventory_manager.py\<close>, class \<open>InventoryManager\<close>; \<open>self.cache\<close> is the cache manager.\<close>

record InventoryManager =
  cache_manager :: "item_snapshot CacheManager"
  inventory :: "(int \<times> item) list"
  reservations :: "(string \<times> reservation) list"
  adjustment_log :: "log_entry list"

text \<open>
  The result dictionaries of the ledger operations, one constructor for each shape that
  the source returns:
  \<^item> \<open>get_item\<close>: the snapshot, or \<open>{'error': 'Item not found', 'item_id': _}\<close>;
  \<^item> \<open>reserve_items\<close>: \<open>'Order already has reservations'\<close> with the order id,
    \<open>'Insufficient inventory for item _'\<close> with item id, requested and available, or
    \<open>'status': 'reserved'\<close> with order id, \<open>items_reserved\<close> and \<open>reservation_details\<close>;
  \<^item> \<open>release_reservation\<close>: \<open>'status': 'not_found'\<close> or \<open>'status': 'released'\<close> with
    order id and \<open>items_released\<close>;
  \<^item> \<open>adjust_inventory\<close>: \<open>'Item not found'\<close>, \<open>'Adjustment would result in negative
    stock'\<close> with item id, current stock and adjustment, or \<open>'status': 'adjusted'\<close> with
    item id, old stock, new stock, adjustment and reason.
\<close>

datatype get_item_result =
  ItemFound item_snapshot
  | ItemNotFound int

datatype reserve_result =
  DuplicateReservation string
  | InsufficientInventory int int int
  | Reserved string nat "(int \<times> int) list"

datatype release_result =
  ReservationNotFound string
  | Released string nat

datatype adjust_result =
  AdjustNotFound int
  | NegativeStockViolation int int int
  | Adjusted int int int int string

section \<open>CacheManager\<close>

definition CacheManager_init :: "'v CacheManager" where
  "CacheManager_init = \<lparr>cache = [], expiry = [], hits = 0, misses = 0\<rparr>"

text \<open>\<open>CacheManager.get\<close>; \<open>now\<close> is the reading of \<open>datetime.now()\<close>.\<close>

definition cache_get :: "'v CacheManager \<Rightarrow> string \<Rightarrow> time \<Rightarrow> 'v option \<times> 'v CacheManager" where
  "cache_get c key now =
     (case map_of (cache c) key of
        Some v \<Rightarrow>
          (case map_of (expiry c) key of
             Some e \<Rightarrow>
               if now > e
               then (None, c\<lparr>cache := AList.delete key (cache c),
                              expiry := AList.delete key (expiry c),
                              misses := misses c + 1\<rparr>)
               else (Some v, c\<lparr>hits := hits c + 1\<rparr>)
           | None \<Rightarrow> (Some v, c\<lparr>hits := hits c + 1\<rparr>))
      | None \<Rightarrow> (None, c\<lparr>misses := misses c + 1\<rparr>))"

text \<open>\<open>CacheManager.set\<close>; \<open>ttl\<close> is in seconds.\<close>

definition cache_set :: "'v CacheManager \<Rightarrow> string \<Rightarrow> 'v \<Rightarrow> int \<Rightarrow> time \<Rightarrow> 'v CacheManager" where
  "cache_set c key v ttl now =
     c\<lparr>cache := AList.update key v (cache c),
       expiry := AList.update key (now + ttl * 1000000) (expiry c)\<rparr>"

definition cache_delete :: "'v CacheManager \<Rightarrow> string \<Rightarrow> 'v CacheManager" where
  "cache_delete c key =
     (if map_of (cache c) key \<noteq> None
      then (let c1 = c\<lparr>cache := AList.delete key (cache c)\<rparr>
            in if map_of (expiry c1) key \<noteq> None
               then c1\<lparr>expiry := AList.delete key (expiry c1)\<rparr>
               else c1)
      else c)"

definition cache_clear :: "'v CacheManager \<Rightarrow> 'v CacheManager" where
  "cache_clear c = c\<lparr>cache := [], expiry := []\<rparr>"

text \<open>
  The statistics are computed in Python floats (IEEE 754 binary64). A float is modelled by
  the rational number it denotes, and each operation of \<open>get_status\<close> by its correctly
  rounded result, as Python computes it:
  \<^item> \<open>nearest_double x\<close> is the double nearest to \<open>x\<close>, a tie going to the even
    significand: 53 significant bits, in steps of \<open>2 powi - 1074\<close> below
    \<open>2 powi - 1022\<close>. No value computed here exceeds 101, so that overflow does not arise.
  \<^item> \<open>hits / total_requests\<close>, the true division of two integers, is the double nearest
    to the quotient, and \<open>_ * 100\<close> the double nearest to the product.
  \<^item> \<open>round(x, 2)\<close> rounds the exact value of the float \<open>x\<close> to two decimals, a tie
    going to the even digit, and returns the double nearest to that decimal.
  \<open>binary_exponent x\<close> is the integer part of the binary logarithm of a positive \<open>x\<close>.
\<close>

definition round_half_even :: "rat \<Rightarrow> int" where
  "round_half_even y =
     (let n = \<lfloor>y\<rfloor>; r = y - of_int n
      in if r < 1 / 2 then n
         else if r > 1 / 2 then n + 1
         else if even n then n else n + 1)"

definition binary_exponent :: "rat \<Rightarrow> int" where
  "binary_exponent x =
     (case quotient_of x of
        (p, q) \<Rightarrow> (let d = bitlen p - bitlen q in if 2 powi d \<le> x then d else d - 1))"

definition nearest_double :: "rat \<Rightarrow> rat" where
  "nearest_double x =
     (if x = 0 then 0
      else (let e = max (binary_exponent \<bar>x\<bar> - 52) (- 1074)
            in of_int (round_half_even (x / 2 powi e)) * 2 powi e))"

definition py_round2 :: "rat \<Rightarrow> rat" where
  "py_round2 x = nearest_double (of_int (round_half_even (x * 100)) / 100)"

record cache_status =
  entries :: nat
  status_hits :: nat
  status_misses :: nat
  hit_rate :: rat

definition get_status :: "'v CacheManager \<Rightarrow> cache_status" where
  "get_status c =
     (let total_requests = hits c + misses c;
          rate = (if total_requests > 0
                  then nearest_double
                         (nearest_double (of_nat (hits c) / of_nat total_requests) * 100)
                  else 0)
      in \<lparr>entries = length (cache c), status_hits = hits c, status_misses = misses c,
          hit_rate = py_round2 rate\<rparr>)"

section \<open>InventoryManager\<close>

text \<open>\<open>str(n)\<close> for an integer, and the cache key \<open>f'item:{item_id}'\<close>.\<close>

fun str_nat :: "nat \<Rightarrow> string" where
  "str_nat n =
     (if n < 10 then [char_of (48 + n)]
      else str_nat (n div 10) @ [char_of (48 + n mod 10)])"

declare str_nat.simps [simp del]

definition str_int :: "int \<Rightarrow> string" where
  "str_int i = (if i < 0 then CHR ''-'' # str_nat (nat (- i)) else str_nat (nat i))"

definition item_key :: "int \<Rightarrow> string" where
  "item_key i = ''item:'' @ str_int i"

definition initialize_inventory :: "(int \<times> item) list" where
  "initialize_inventory =
     [(1001, \<lparr>item_id = 1001, name = ''Laptop Pro 15'' @ [CHR 0x22], stock = 47, reserved = 3, sku = ''LAP-PRO-15''\<rparr>),
      (1002, \<lparr>item_id = 1002, name = ''Wireless Mouse'', stock = 234, reserved = 12, sku = ''MSE-WRL-01''\<rparr>),
      (1003, \<lparr>item_id = 1003, name = ''Mechanical Keyboard'', stock = 89, reserved = 5, sku = ''KBD-MCH-01''\<rparr>),
      (1004, \<lparr>item_id = 1004, name = ''USB-C Hub'', stock = 156, reserved = 8, sku = ''HUB-USC-01''\<rparr>),
      (1005, \<lparr>item_id = 1005, name = ''27'' @ [CHR 0x22] @ '' Monitor 4K'', stock = 23, reserved = 2, sku = ''MON-27-4K''\<rparr>),
      (1006, \<lparr>item_id = 1006, name = ''Webcam HD Pro'', stock = 78, reserved = 6, sku = ''WBC-HD-PRO''\<rparr>),
      (1007, \<lparr>item_id = 1007, name = ''Desk Lamp LED'', stock = 142, reserved = 4, sku = ''LMP-DSK-LED''\<rparr>),
      (1008, \<lparr>item_id = 1008, name = ''Cable Organizer'', stock = 8, reserved = 1, sku = ''ORG-CBL-01''\<rparr>),
      (1009, \<lparr>item_id = 1009, name = ''Laptop Stand'', stock = 5, reserved = 0, sku = ''STD-LAP-01''\<rparr>),
      (1010, \<lparr>item_id = 1010, name = ''Headphones Noise Cancel'', stock = 112, reserved = 15, sku = ''HDP-NC-01''\<rparr>)]"

definition InventoryManager_init :: "item_snapshot CacheManager \<Rightarrow> InventoryManager" where
  "InventoryManager_init c =
     \<lparr>cache_manager = c, inventory = initialize_inventory, reservations = [],
      adjustment_log = []\<rparr>"

text \<open>
  \<open>get_item\<close> reads the clock three times: in \<open>cache.get\<close> (\<open>t_get\<close>), for
  \<open>last_checked\<close> (\<open>utcnow\<close>) and in \<open>cache.set\<close> (\<open>t_set\<close>). A cached snapshot is a
  non-empty dictionary, hence true in \<open>if cached\<close>.
\<close>

definition get_item ::
  "InventoryManager \<Rightarrow> int \<Rightarrow> time \<Rightarrow> time \<Rightarrow> time \<Rightarrow> get_item_result \<times> InventoryManager" where
  "get_item m i t_get utcnow t_set =
     (case cache_get (cache_manager m) (item_key i) t_get of
        (Some cached, c1) \<Rightarrow> (ItemFound cached, m\<lparr>cache_manager := c1\<rparr>)
      | (None, c1) \<Rightarrow>
          (case map_of (inventory m) i of
             None \<Rightarrow> (ItemNotFound i, m\<lparr>cache_manager := c1\<rparr>)
           | Some it \<Rightarrow>
               (let snap = \<lparr>item_id = item_id it, name = name it, stock = stock it,
                            reserved = reserved it, sku = sku it,
                            available = stock it - reserved it, last_checked = utcnow\<rparr>
                in (ItemFound snap,
                    m\<lparr>cache_manager := cache_set c1 (item_key i) snap 60 t_set\<rparr>))))"

definition check_availability :: "InventoryManager \<Rightarrow> int \<Rightarrow> int \<Rightarrow> bool" where
  "check_availability m i quantity =
     (case map_of (inventory m) i of
        None \<Rightarrow> False
      | Some it \<Rightarrow> (let avail = stock it - reserved it in avail \<ge> quantity))"

text \<open>
  The first loop of \<open>reserve_items\<close>: \<open>None\<close> when every pair passes, otherwise how the
  call ends at the first pair that fails. The dictionary returned there reads
  \<open>self.inventory[item_id]\<close>, which raises \<open>KeyError\<close> for an id that is not a key.
\<close>

fun validate_items :: "InventoryManager \<Rightarrow> (int \<times> int) list \<Rightarrow> (py_error + reserve_result) option" where
  "validate_items m [] = None"
| "validate_items m ((i, quantity) # rest) =
     (if \<not> check_availability m i quantity
      then (case map_of (inventory m) i of
              None \<Rightarrow> Some (Inl KeyError)
            | Some it \<Rightarrow> Some (Inr (InsufficientInventory i quantity (stock it - reserved it))))
      else validate_items m rest)"

text \<open>
  The second loop of \<open>reserve_items\<close>, with \<open>reservation_details\<close> as accumulator.
  \<open>self.inventory[item_id]\<close> raises \<open>KeyError\<close> for an unknown id; what was changed
  before stays changed.
\<close>

fun reserve_loop ::
  "InventoryManager \<Rightarrow> (int \<times> int) list \<Rightarrow> (int \<times> int) list
     \<Rightarrow> py_error option \<times> (int \<times> int) list \<times> InventoryManager" where
  "reserve_loop m details [] = (None, details, m)"
| "reserve_loop m details ((i, quantity) # rest) =
     (case map_of (inventory m) i of
        None \<Rightarrow> (Some KeyError, details, m)
      | Some _ \<Rightarrow>
          reserve_loop
            (m\<lparr>inventory := AList.map_entry i (\<lambda>it. it\<lparr>reserved := reserved it + quantity\<rparr>) (inventory m),
               cache_manager := cache_delete (cache_manager m) (item_key i)\<rparr>)
            (AList.update i quantity details)
            rest)"

definition reserve_items ::
  "InventoryManager \<Rightarrow> string \<Rightarrow> (int \<times> int) list \<Rightarrow> time
     \<Rightarrow> (py_error + reserve_result) \<times> InventoryManager" where
  "reserve_items m order_id reqs utcnow =
     (if map_of (reservations m) order_id \<noteq> None
      then (Inr (DuplicateReservation order_id), m)
      else
        (case validate_items m reqs of
           Some r \<Rightarrow> (r, m)
         | None \<Rightarrow>
             (case reserve_loop m [] reqs of
                (Some e, details, m1) \<Rightarrow> (Inl e, m1)
              | (None, details, m1) \<Rightarrow>
                  (Inr (Reserved order_id (length details) details),
                   m1\<lparr>reservations :=
                        AList.update order_id \<lparr>items = details, timestamp = utcnow\<rparr>
                          (reservations m1)\<rparr>))))"

text \<open>The loop of \<open>release_reservation\<close> over \<open>reservation['items'].items()\<close>.\<close>

fun release_loop :: "InventoryManager \<Rightarrow> (int \<times> int) list \<Rightarrow> py_error option \<times> InventoryManager" where
  "release_loop m [] = (None, m)"
| "release_loop m ((i, quantity) # rest) =
     (case map_of (inventory m) i of
        None \<Rightarrow> (Some KeyError, m)
      | Some _ \<Rightarrow>
          release_loop
            (m\<lparr>inventory := AList.map_entry i (\<lambda>it. it\<lparr>reserved := reserved it - quantity\<rparr>) (inventory m),
               cache_manager := cache_delete (cache_manager m) (item_key i)\<rparr>)
            rest)"

definition release_reservation ::
  "InventoryManager \<Rightarrow> string \<Rightarrow> (py_error + release_result) \<times> InventoryManager" where
  "release_reservation m order_id =
     (case map_of (reservations m) order_id of
        None \<Rightarrow> (Inr (ReservationNotFound order_id), m)
      | Some r \<Rightarrow>
          (case release_loop m (items r) of
             (Some e, m1) \<Rightarrow> (Inl e, m1)
           | (None, m1) \<Rightarrow>
               (Inr (Released order_id (length (items r))),
                m1\<lparr>reservations := AList.delete order_id (reservations m1)\<rparr>)))"

definition adjust_inventory ::
  "InventoryManager \<Rightarrow> int \<Rightarrow> int \<Rightarrow> string \<Rightarrow> time \<Rightarrow> adjust_result \<times> InventoryManager" where
  "adjust_inventory m i adjustment reason utcnow =
     (case map_of (inventory m) i of
        None \<Rightarrow> (AdjustNotFound i, m)
      | Some it \<Rightarrow>
          (let old_stock = stock it; new_stock = old_stock + adjustment
           in if new_stock < 0
              then (NegativeStockViolation i old_stock adjustment, m)
              else
                (Adjusted i old_stock new_stock adjustment reason,
                 m\<lparr>inventory := AList.map_entry i (\<lambda>it. it\<lparr>stock := new_stock\<rparr>) (inventory m),
                   adjustment_log := adjustment_log m @
                     [\<lparr>log_item_id = i, log_old_stock = old_stock, log_new_stock = new_stock,
                       log_adjustment = adjustment, log_reason = reason,
                       log_timestamp = utcnow\<rparr>],
                   cache_manager := cache_delete (cache_manager m) (item_key i)\<rparr>)))"

text \<open>
  The loop of \<open>get_low_stock_items\<close> over \<open>self.inventory.items()\<close>; the entry's
  \<open>item_id\<close> is the key of the dictionary.
\<close>

fun low_stock :: "(int \<times> item) list \<Rightarrow> int \<Rightarrow> item_available list" where
  "low_stock [] threshold = []"
| "low_stock ((i, it) # rest) threshold =
     (let avail = stock it - reserved it
      in if avail \<le> threshold
         then \<lparr>item_id = i, name = name it, stock = stock it, reserved = reserved it,
               sku = sku it, available = avail\<rparr> # low_stock rest threshold
         else low_stock rest threshold)"

text \<open>\<open>sorted(_, key=_)\<close> is a stable sort, as \<open>sort_key\<close> is.\<close>

definition get_low_stock_items :: "InventoryManager \<Rightarrow> int \<Rightarrow> item_available list" where
  "get_low_stock_items m threshold = sort_key available (low_stock (inventory m) threshold)"

text \<open>\<open>app.py\<close>: the manager of the service, built on a fresh cache manager.\<close>

definition inventory_manager :: InventoryManager where
  "inventory_manager = InventoryManager_init CacheManager_init"

text \<open>
  Frame conditions on the inventory dictionary, entry by entry and in the same order:
  the keys and the fields \<open>item_id\<close>, \<open>name\<close>, \<open>sku\<close> are the same, an entry whose key
  is not a target is the same altogether, and a target differs at most in \<open>reserved\<close>
  (respectively in \<open>stock\<close>).
\<close>

definition only_reserved_changed :: "int set \<Rightarrow> (int \<times> item) list \<Rightarrow> (int \<times> item) list \<Rightarrow> bool" where
  "only_reserved_changed targets old new =
     list_all2 (\<lambda>(i, a) (j, b). j = i \<and> item_id b = item_id a \<and> name b = name a \<and>
                  sku b = sku a \<and> stock b = stock a \<and> (i \<notin> targets \<longrightarrow> b = a)) old new"

definition only_stock_changed :: "int set \<Rightarrow> (int \<times> item) list \<Rightarrow> (int \<times> item) list \<Rightarrow> bool" where
  "only_stock_changed targets old new =
     list_all2 (\<lambda>(i, a) (j, b). j = i \<and> item_id b = item_id a \<and> name b = name a \<and>
                  sku b = sku a \<and> reserved b = reserved a \<and> (i \<notin> targets \<longrightarrow> b = a)) old new"

text \<open>
  The calls that the service makes on its manager, with the clock readings of each call,
  and their effect on the state; a call that raises leaves the state it had reached.
  \<open>check_availability\<close> and \<open>get_low_stock_items\<close> only read.
\<close>

datatype operation =
  GetItem int time time time
  | CheckAvailability int int
  | ReserveItems string "(int \<times> int) list" time
  | ReleaseReservation string
  | AdjustInventory int int string time
  | GetLowStockItems int

fun apply_operation :: "InventoryManager \<Rightarrow> operation \<Rightarrow> InventoryManager" where
  "apply_operation m (GetItem i t_get utcnow t_set) = snd (get_item m i t_get utcnow t_set)"
| "apply_operation m (CheckAvailability i quantity) = m"
| "apply_operation m (ReserveItems order_id reqs utcnow) = snd (reserve_items m order_id reqs utcnow)"
| "apply_operation m (ReleaseReservation order_id) = snd (release_reservation m order_id)"
| "apply_operation m (AdjustInventory i adjustment reason utcnow) =
     snd (adjust_inventory m i adjustment reason utcnow)"
| "apply_operation m (GetLowStockItems threshold) = m"

definition run_operations :: "InventoryManager \<Rightarrow> operation list \<Rightarrow> InventoryManager" where
  "run_operations m ops = foldl apply_operation m ops"

text \<open>The stated invariant of the items: \<open>0 \<le> reserved \<le> stock\<close> for every item.\<close>

definition stock_invariant :: "InventoryManager \<Rightarrow> bool" where
  "stock_invariant m = list_all (\<lambda>(i, it). 0 \<le> reserved it \<and> reserved it \<le> stock it) (inventory m)"

text \<open>
  The calls under which the invariant is kept: a reservation request names no item twice
  and asks for no negative quantity, and an adjustment that is accepted does not take
  the stock below what is reserved.
\<close>

fun admissible :: "InventoryManager \<Rightarrow> operation \<Rightarrow> bool" where
  "admissible m (ReserveItems order_id reqs utcnow) =
     (distinct (map fst reqs) \<and> list_all (\<lambda>(i, quantity). 0 \<le> quantity) reqs)"
| "admissible m (AdjustInventory i adjustment reason utcnow) =
     (case map_of (inventory m) i of
        None \<Rightarrow> True
      | Some it \<Rightarrow> stock it + adjustment < 0 \<or> reserved it \<le> stock it + adjustment)"
| "admissible m _ = True"

fun admissible_run :: "InventoryManager \<Rightarrow> operation list \<Rightarrow> bool" where
  "admissible_run m [] = True"
| "admissible_run m (x # ops) = (admissible m x \<and> admissible_run (apply_operation m x) ops)"

text \<open>
  For the proof of the invariant: the quantity a reservation holds of an item, the total
  held by the live reservations, and the invariant of the whole ledger (keys are not
  repeated, every reservation names known items once with non-negative quantities, and
  the live reservations hold no more of an item than is reserved).
\<close>

definition qty_of :: "(int \<times> int) list \<Rightarrow> int \<Rightarrow> int" where
  "qty_of xs i = (case map_of xs i of None \<Rightarrow> 0 | Some q \<Rightarrow> q)"

definition held :: "(string \<times> reservation) list \<Rightarrow> int \<Rightarrow> int" where
  "held rs i = sum_list (map (\<lambda>(order_id, r). qty_of (items r) i) rs)"

definition reservation_ok :: "(int \<times> item) list \<Rightarrow> reservation \<Rightarrow> bool" where
  "reservation_ok xs r =
     (distinct (map fst (items r)) \<and>
      (\<forall>(i, q) \<in> set (items r). 0 \<le> q \<and> i \<in> fst ` set xs))"

definition ledger_inv :: "InventoryManager \<Rightarrow> bool" where
  "ledger_inv m =
     (distinct (map fst (inventory m)) \<and>
      distinct (map fst (reservations m)) \<and>
      (\<forall>(order_id, r) \<in> set (reservations m). reservation_ok (inventory m) r) \<and>
      (\<forall>i it. map_of (inventory m) i = Some it \<longrightarrow>
         held (reservations m) i \<le> reserved it \<and> reserved it \<le> stock it))"


section \<open>Properties\<close>

lemmas seeded_defs = inventory_manager_def InventoryManager_init_def initialize_inventory_def
  CacheManager_init_def

subsection \<open>Dictionary and cache lemmas\<close>

lemma map_of_map_entry_same:
  "map_of xs k = Some v \<Longrightarrow> map_of (AList.map_entry k f xs) k = Some (f v)"
  by (simp add: map_of_map_entry)

lemma cache_delete_absent: "map_of (cache (cache_delete c key)) key = None"
  by (simp add: cache_delete_def Let_def delete_conv')

subsection \<open>Duplicate reservations\<close>

text \<open>
  Claim C4. In every state, for every order id that already has a live reservation,
  \<open>reserve_items\<close> returns the \<open>DuplicateReservation\<close> failure and the whole state
  (inventory, reservations, adjustment log, cache) is the one before the call,
  whatever the list of items.
\<close>

theorem reserve_items_duplicate:
  "map_of (reservations m) order_id \<noteq> None \<Longrightarrow>
     reserve_items m order_id reqs utcnow = (Inr (DuplicateReservation order_id), m)"
  by (simp add: reserve_items_def)

theorem reserve_items_duplicate_witness:
  "map_of (reservations (snd (reserve_items (inventory_manager) ''order_003'' [(1001, 5)] 0))) ''order_003'' \<noteq> None
   \<and> reserve_items (snd (reserve_items (inventory_manager) ''order_003'' [(1001, 5)] 0)) ''order_003'' [(1001, 5)] 1
       = (Inr (DuplicateReservation ''order_003''),
          snd (reserve_items (inventory_manager) ''order_003'' [(1001, 5)] 0))"
proof -
  have live: "map_of (reservations (snd (reserve_items (inventory_manager) ''order_003'' [(1001, 5)] 0))) ''order_003'' \<noteq> None"
    by (simp add: reserve_items_def seeded_defs
        check_availability_def)
  show ?thesis
    using live reserve_items_duplicate [OF live, of "[(1001, 5)]" 1] by simp
qed

subsection \<open>Availability\<close>

text \<open>
  Claim C5. \<open>check_availability\<close> is false for an id that is not in the catalog and is
  \<open>stock - reserved \<ge> quantity\<close> on the live entry otherwise; for the seeded item 1001
  (stock 47, reserved 3) it is true for 44 and false for 45.
\<close>

theorem check_availability_spec:
  "(map_of (inventory m) i = None \<longrightarrow> \<not> check_availability m i q) \<and>
   (\<forall>it. map_of (inventory m) i = Some it \<longrightarrow>
      check_availability m i q = (stock it - reserved it \<ge> q)) \<and>
   check_availability (InventoryManager_init c) 1001 44 \<and>
   \<not> check_availability (InventoryManager_init c) 1001 45"
  by (simp add: check_availability_def InventoryManager_init_def initialize_inventory_def)

theorem check_availability_spec_witness:
  "map_of (inventory (InventoryManager_init CacheManager_init)) 9999 = None \<and>
   \<not> check_availability (InventoryManager_init CacheManager_init) 9999 1 \<and>
   map_option stock (map_of (inventory (InventoryManager_init CacheManager_init)) 1002) = Some 234 \<and>
   map_option reserved (map_of (inventory (InventoryManager_init CacheManager_init)) 1002) = Some 12 \<and>
   check_availability (InventoryManager_init CacheManager_init) 1002 222 \<and>
   \<not> check_availability (InventoryManager_init CacheManager_init) 1002 223"
proof -
  let ?m = "InventoryManager_init CacheManager_init"
  have unknown: "map_of (inventory ?m) 9999 = None"
    by (simp add: InventoryManager_init_def initialize_inventory_def)
  have known: "map_of (inventory ?m) 1002 =
      Some \<lparr>item_id = 1002, name = ''Wireless Mouse'', stock = 234, reserved = 12, sku = ''MSE-WRL-01''\<rparr>"
    by (simp add: InventoryManager_init_def initialize_inventory_def)
  show ?thesis
    using unknown known check_availability_spec [of ?m 9999 1 CacheManager_init]
      check_availability_spec [of ?m 1002 222 CacheManager_init]
      check_availability_spec [of ?m 1002 223 CacheManager_init]
    by simp
qed

subsection \<open>Adjustments\<close>

text \<open>
  Claim C6. \<open>adjust_inventory\<close> on an unknown id returns not-found and leaves the state
  as it is; on a known item with \<open>stock + delta < 0\<close> it returns the negative-stock
  failure and leaves the state as it is; otherwise it stores \<open>stock + delta\<close>, appends
  exactly one log entry, leaves no cache entry under the item's key, and returns old
  stock, new stock and the delta.
\<close>

theorem adjust_inventory_spec:
  "(map_of (inventory m) i = None \<longrightarrow>
      adjust_inventory m i d reason utcnow = (AdjustNotFound i, m)) \<and>
   (\<forall>it. map_of (inventory m) i = Some it \<and> stock it + d < 0 \<longrightarrow>
      adjust_inventory m i d reason utcnow = (NegativeStockViolation i (stock it) d, m)) \<and>
   (\<forall>it. map_of (inventory m) i = Some it \<and> 0 \<le> stock it + d \<longrightarrow>
      (\<exists>m'. adjust_inventory m i d reason utcnow =
               (Adjusted i (stock it) (stock it + d) d reason, m') \<and>
            map_of (inventory m') i = Some (it\<lparr>stock := stock it + d\<rparr>) \<and>
            adjustment_log m' = adjustment_log m @
              [\<lparr>log_item_id = i, log_old_stock = stock it, log_new_stock = stock it + d,
                log_adjustment = d, log_reason = reason, log_timestamp = utcnow\<rparr>] \<and>
            map_of (cache (cache_manager m')) (item_key i) = None))"
  by (auto simp add: adjust_inventory_def Let_def map_of_map_entry_same cache_delete_absent)

theorem adjust_inventory_spec_witness:
  "map_of (inventory inventory_manager) 9999 = None \<and>
   adjust_inventory inventory_manager 9999 1 ''test'' 0 = (AdjustNotFound 9999, inventory_manager) \<and>
   map_option stock (map_of (inventory inventory_manager) 1001) = Some 47 \<and>
   adjust_inventory inventory_manager 1001 (- 10000) ''test'' 0 =
     (NegativeStockViolation 1001 47 (- 10000), inventory_manager) \<and>
   fst (adjust_inventory inventory_manager 1001 100 ''restock'' 0) =
     Adjusted 1001 47 147 100 ''restock'' \<and>
   map_option stock (map_of (inventory (snd (adjust_inventory inventory_manager 1001 100 ''restock'' 0))) 1001)
     = Some 147 \<and>
   length (adjustment_log (snd (adjust_inventory inventory_manager 1001 100 ''restock'' 0))) = 1"
proof -
  have unknown: "map_of (inventory inventory_manager) 9999 = None"
    by (simp add: seeded_defs)
  have known: "map_of (inventory inventory_manager) 1001 =
      Some \<lparr>item_id = 1001, name = ''Laptop Pro 15'' @ [CHR 0x22], stock = 47, reserved = 3,
            sku = ''LAP-PRO-15''\<rparr>"
    by (simp add: seeded_defs)
  have log0: "adjustment_log inventory_manager = []"
    by (simp add: seeded_defs)
  show ?thesis
    using unknown known log0
      adjust_inventory_spec [of inventory_manager 9999 1 "''test''" 0]
      adjust_inventory_spec [of inventory_manager 1001 "- 10000" "''test''" 0]
      adjust_inventory_spec [of inventory_manager 1001 100 "''restock''" 0]
    by auto
qed

subsection \<open>Low stock report\<close>

lemma low_stock_entry:
  "e \<in> set (low_stock xs t) \<Longrightarrow>
     available e \<le> t \<and> available e = stock e - reserved e \<and>
     (\<exists>it. (item_id e, it) \<in> set xs \<and> stock e = stock it \<and> reserved e = reserved it)"
  by (induction xs t rule: low_stock.induct) (auto simp: Let_def split: if_splits)

text \<open>
  Claim C7. The list returned by \<open>get_low_stock_items\<close> is sorted ascending by
  \<open>available\<close>; every entry has \<open>available \<le> threshold\<close>, where \<open>available\<close> is
  \<open>stock - reserved\<close> of an item of the ledger, so no item with a larger \<open>available\<close>
  is listed.
\<close>

theorem get_low_stock_items_sorted:
  "sorted (map available (get_low_stock_items m t)) \<and>
   (\<forall>e \<in> set (get_low_stock_items m t).
      available e \<le> t \<and> available e = stock e - reserved e \<and>
      (\<exists>it. (item_id e, it) \<in> set (inventory m) \<and> stock e = stock it \<and> reserved e = reserved it))"
proof
  show "sorted (map available (get_low_stock_items m t))"
    by (simp add: get_low_stock_items_def)
next
  show "\<forall>e \<in> set (get_low_stock_items m t).
      available e \<le> t \<and> available e = stock e - reserved e \<and>
      (\<exists>it. (item_id e, it) \<in> set (inventory m) \<and> stock e = stock it \<and> reserved e = reserved it)"
  proof
    fix e assume "e \<in> set (get_low_stock_items m t)"
    then have "e \<in> set (low_stock (inventory m) t)"
      by (simp add: get_low_stock_items_def)
    then show "available e \<le> t \<and> available e = stock e - reserved e \<and>
      (\<exists>it. (item_id e, it) \<in> set (inventory m) \<and> stock e = stock it \<and> reserved e = reserved it)"
      by (rule low_stock_entry)
  qed
qed

theorem get_low_stock_items_sorted_witness:
  "map item_id (get_low_stock_items inventory_manager 10) = [1009, 1008] \<and>
   map available (get_low_stock_items inventory_manager 10) = [5, 7] \<and>
   sorted (map available (get_low_stock_items inventory_manager 10)) \<and>
   list_all (\<lambda>e. available e \<le> 10 \<and> available e = stock e - reserved e)
     (get_low_stock_items inventory_manager 10)"
proof -
  have "get_low_stock_items inventory_manager 10 =
     [\<lparr>item_id = 1009, name = ''Laptop Stand'', stock = 5, reserved = 0, sku = ''STD-LAP-01'', available = 5\<rparr>,
      \<lparr>item_id = 1008, name = ''Cable Organizer'', stock = 8, reserved = 1, sku = ''ORG-CBL-01'', available = 7\<rparr>]"
    by (simp add: get_low_stock_items_def seeded_defs)
  then show ?thesis
    using get_low_stock_items_sorted [of inventory_manager 10] by simp
qed

subsection \<open>Cache expiry\<close>

text \<open>
  Claim C8. After \<open>set(k, v, ttl)\<close> at time \<open>t0\<close>, a \<open>get(k)\<close> at a time not later
  than \<open>t0 + ttl\<close> returns \<open>v\<close> and adds one to the hit counter; a \<open>get(k)\<close> later
  than \<open>t0 + ttl\<close> returns nothing, removes the entry and its expiry, and adds one to
  the miss counter.
\<close>

theorem cache_get_after_set:
  "(now \<le> t0 + ttl * 1000000 \<longrightarrow>
      cache_get (cache_set c k v ttl t0) k now =
        (Some v, (cache_set c k v ttl t0)\<lparr>hits := hits c + 1\<rparr>)) \<and>
   (now > t0 + ttl * 1000000 \<longrightarrow>
      (\<exists>c'. cache_get (cache_set c k v ttl t0) k now = (None, c') \<and>
            map_of (cache c') k = None \<and> map_of (expiry c') k = None \<and>
            misses c' = misses c + 1 \<and> hits c' = hits c))"
  by (simp add: cache_get_def cache_set_def update_conv' delete_conv')

theorem cache_get_after_set_witness:
  "(1000000::int) \<le> 0 + 1 * 1000000 \<and>
   fst (cache_get (cache_set (CacheManager_init :: string CacheManager) ''expiring_key'' ''value'' 1 0)
          ''expiring_key'' 1000000) = Some ''value'' \<and>
   hits (snd (cache_get (cache_set (CacheManager_init :: string CacheManager) ''expiring_key'' ''value'' 1 0)
          ''expiring_key'' 1000000)) = 1 \<and>
   (2000000::int) > 0 + 1 * 1000000 \<and>
   fst (cache_get (cache_set (CacheManager_init :: string CacheManager) ''expiring_key'' ''value'' 1 0)
          ''expiring_key'' 2000000) = None \<and>
   misses (snd (cache_get (cache_set (CacheManager_init :: string CacheManager) ''expiring_key'' ''value'' 1 0)
          ''expiring_key'' 2000000)) = 1 \<and>
   cache (snd (cache_get (cache_set (CacheManager_init :: string CacheManager) ''expiring_key'' ''value'' 1 0)
          ''expiring_key'' 2000000)) = []"
proof -
  have init: "hits (CacheManager_init :: string CacheManager) = 0"
    "misses (CacheManager_init :: string CacheManager) = 0"
    "cache (CacheManager_init :: string CacheManager) = []"
    by (simp_all add: CacheManager_init_def)
  have evicted: "cache (snd (cache_get (cache_set (CacheManager_init :: string CacheManager)
      ''expiring_key'' ''value'' 1 0) ''expiring_key'' 2000000)) = []"
    by (simp add: cache_get_def cache_set_def CacheManager_init_def)
  show ?thesis
    using init evicted
      cache_get_after_set [of 1000000 0 1 "CacheManager_init :: string CacheManager" "''expiring_key''" "''value''"]
      cache_get_after_set [of 2000000 0 1 "CacheManager_init :: string CacheManager" "''expiring_key''" "''value''"]
    by auto
qed

subsection \<open>Cache statistics\<close>

subsubsection \<open>Rounding to the nearest double\<close>

lemma round_half_even_err: "\<bar>of_int (round_half_even y) - y\<bar> \<le> 1 / 2"
proof -
  have "of_int \<lfloor>y\<rfloor> \<le> y" "y < of_int \<lfloor>y\<rfloor> + 1" by linarith+
  then show ?thesis
    by (auto simp add: round_half_even_def Let_def abs_le_iff)
qed

lemma round_half_even_nonneg: "0 \<le> y \<Longrightarrow> 0 \<le> round_half_even y"
  by (auto simp add: round_half_even_def Let_def)

lemma bitlen_bounds_rat:
  "0 < p \<Longrightarrow> (2::rat) powi (bitlen p - 1) \<le> of_int p \<and> of_int p < (2::rat) powi bitlen p"
proof -
  assume p: "0 < p"
  then have b: "1 \<le> bitlen p"
    using bitlen_bounds [OF p] bitlen_nonneg [of p] by (cases "bitlen p = 0") auto
  from bitlen_bounds [OF p] have "(2::int) ^ nat (bitlen p - 1) \<le> p" and "p < 2 ^ nat (bitlen p)"
    by simp_all
  then have "(of_int ((2::int) ^ nat (bitlen p - 1)) :: rat) \<le> of_int p"
    and "(of_int p :: rat) < of_int ((2::int) ^ nat (bitlen p))"
    by (simp_all only: of_int_le_iff of_int_less_iff)
  then show ?thesis
    using b by (simp add: power_int_def)
qed

lemma binary_exponent_bounds:
  assumes x: "0 < x"
  shows "2 powi binary_exponent x \<le> x \<and> x < 2 powi (binary_exponent x + 1)"
proof -
  obtain p q where pq: "quotient_of x = (p, q)" by (cases "quotient_of x")
  then have q: "0 < q" by (rule quotient_of_denom_pos)
  have xq: "x = of_int p / of_int q"
    using pq by (rule quotient_of_div)
  with x q have p: "0 < p"
    by (simp add: zero_less_divide_iff)
  let ?d = "bitlen p - bitlen q"
  from bitlen_bounds_rat [OF p] bitlen_bounds_rat [OF q]
  have bp: "(2::rat) powi (bitlen p - 1) \<le> of_int p" "of_int p < (2::rat) powi bitlen p"
    and bq: "(2::rat) powi (bitlen q - 1) \<le> of_int q" "of_int q < (2::rat) powi bitlen q"
    by simp_all
  have pos: "0 < (2::rat) powi k" for k by simp
  have "?d + 1 = bitlen p - (bitlen q - 1)" by simp
  then have "(2::rat) powi (?d + 1) = 2 powi (bitlen p - (bitlen q - 1))"
    by (simp only:)
  also have "\<dots> = 2 powi bitlen p / 2 powi (bitlen q - 1)"
    by (rule power_int_diff) simp
  finally have up_eq: "(2::rat) powi (?d + 1) = 2 powi bitlen p / 2 powi (bitlen q - 1)" .
  have "?d - 1 = bitlen p - 1 - bitlen q" by simp
  then have "(2::rat) powi (?d - 1) = 2 powi (bitlen p - 1 - bitlen q)"
    by (simp only:)
  also have "\<dots> = 2 powi (bitlen p - 1) / 2 powi bitlen q"
    by (rule power_int_diff) simp
  finally have low_eq: "(2::rat) powi (?d - 1) = 2 powi (bitlen p - 1) / 2 powi bitlen q" .
  have "of_int p / of_int q < (2::rat) powi bitlen p / 2 powi (bitlen q - 1)"
  proof (rule frac_less)
    show "(0::rat) \<le> of_int p" using p by simp
    show "of_int p < (2::rat) powi bitlen p" by (rule bp(2))
    show "0 < (2::rat) powi (bitlen q - 1)" by (rule pos)
    show "(2::rat) powi (bitlen q - 1) \<le> of_int q" by (rule bq(1))
  qed
  then have "x < 2 powi bitlen p / 2 powi (bitlen q - 1)"
    by (simp only: xq)
  then have upper: "x < 2 powi (?d + 1)"
    by (simp only: up_eq)
  have "(2::rat) powi (bitlen p - 1) / 2 powi bitlen q \<le> of_int p / of_int q"
  proof (rule frac_le)
    show "(0::rat) \<le> of_int p" using p by simp
    show "(2::rat) powi (bitlen p - 1) \<le> of_int p" by (rule bp(1))
    show "(0::rat) < of_int q" using q by simp
    show "of_int q \<le> (2::rat) powi bitlen q" using bq(2) by simp
  qed
  then have "2 powi (bitlen p - 1) / 2 powi bitlen q \<le> x"
    by (simp only: xq)
  then have lower: "2 powi (?d - 1) \<le> x"
    by (simp only: low_eq)
  show ?thesis
  proof (cases "2 powi ?d \<le> x")
    case True
    then have "binary_exponent x = ?d" by (simp add: binary_exponent_def pq)
    with True upper show ?thesis by simp
  next
    case False
    then have "binary_exponent x = ?d - 1" by (simp add: binary_exponent_def pq)
    with False lower show ?thesis by simp
  qed
qed

lemma binary_exponent_less:
  assumes "0 < x" and "x < 2 powi k"
  shows "binary_exponent x < k"
proof (rule ccontr)
  assume "\<not> binary_exponent x < k"
  then have "k \<le> binary_exponent x" by simp
  then have "(2::rat) powi k \<le> 2 powi binary_exponent x"
    by (intro power_int_increasing) simp_all
  with binary_exponent_bounds [OF assms(1)] assms(2) show False by simp
qed

lemma nearest_double_nonneg: "0 \<le> x \<Longrightarrow> 0 \<le> nearest_double x"
  by (auto simp add: nearest_double_def Let_def intro!: mult_nonneg_nonneg round_half_even_nonneg
      divide_nonneg_pos)

lemma nearest_double_err:
  assumes x: "0 \<le> x" and bound: "x < 2 powi k" and k: "- 1021 \<le> k"
  shows "\<bar>nearest_double x - x\<bar> \<le> 2 powi (k - 54)"
proof (cases "x = 0")
  case True
  then show ?thesis by (simp add: nearest_double_def)
next
  case False
  with x have pos: "0 < x" by simp
  define e where "e = max (binary_exponent \<bar>x\<bar> - 52) (- 1074)"
  define P :: rat where "P = 2 powi e"
  have P: "0 < P" by (simp add: P_def)
  from binary_exponent_less [OF pos bound] pos k have e: "e \<le> k - 53"
    by (simp add: e_def)
  have fl: "nearest_double x = of_int (round_half_even (x / P)) * P"
    using False by (simp add: nearest_double_def e_def P_def Let_def)
  have "nearest_double x - x = (of_int (round_half_even (x / P)) - x / P) * P"
    using P by (simp add: fl field_simps)
  then have "\<bar>nearest_double x - x\<bar> = \<bar>of_int (round_half_even (x / P)) - x / P\<bar> * P"
    using P by (simp add: abs_mult)
  also have "\<dots> \<le> 1 / 2 * P"
    using P round_half_even_err [of "x / P"] by (intro mult_right_mono) simp_all
  also have "\<dots> = 2 powi (e - 1)"
    by (simp add: P_def power_int_diff)
  also have "\<dots> \<le> 2 powi (k - 54)"
    using e by (intro power_int_increasing) simp_all
  finally show ?thesis .
qed

lemma pow2_values:
  "(2::rat) powi (- 53) = 1 / 9007199254740992"
  "(2::rat) powi (- 47) = 1 / 140737488355328"
  "(2::rat) powi (- 46) = 1 / 70368744177664"
  "(2::rat) powi 1 = 2" "(2::rat) powi 7 = 128" "(2::rat) powi 8 = 256"
  by (simp_all add: power_int_def inverse_eq_divide power_divide)

subsubsection \<open>The reported hit rate\<close>

lemma py_round2_zero: "py_round2 0 = 0"
  by (simp add: py_round2_def round_half_even_def nearest_double_def)

lemma hit_rate_get_status:
  "hit_rate (get_status c) =
     py_round2 (if hits c + misses c > 0
                then nearest_double
                       (nearest_double (of_nat (hits c) / of_nat (hits c + misses c)) * 100)
                else 0)"
  by (simp add: get_status_def Let_def)

lemma percentage_err:
  fixes x :: rat
  assumes x0: "0 \<le> x" and x1: "x \<le> 1"
  shows "\<bar>py_round2 (nearest_double (nearest_double x * 100)) - 100 * x\<bar>
           \<le> 1 / 200 + 1 / 10 ^ 12"
proof -
  define a where "a = nearest_double x"
  define b where "b = nearest_double (a * 100)"
  define c :: rat where "c = of_int (round_half_even (b * 100)) / 100"
  have a0: "0 \<le> a" unfolding a_def using x0 by (rule nearest_double_nonneg)
  have "\<bar>a - x\<bar> \<le> 2 powi (1 - 54)"
    unfolding a_def using x0 x1 by (intro nearest_double_err) (simp_all add: pow2_values)
  then have a_err: "\<bar>a - x\<bar> \<le> 1 / 9007199254740992"
    by (simp add: pow2_values)
  have y0: "0 \<le> a * 100" using a0 by simp
  have "a * 100 < 128" using a_err x1 by linarith
  then have y7: "a * 100 < 2 powi 7" by (simp add: pow2_values)
  have b0: "0 \<le> b" unfolding b_def using y0 by (rule nearest_double_nonneg)
  have "\<bar>b - a * 100\<bar> \<le> 2 powi (7 - 54)"
    unfolding b_def using y0 y7 by (intro nearest_double_err) simp_all
  then have b_err: "\<bar>b - a * 100\<bar> \<le> 1 / 140737488355328"
    by (simp add: pow2_values)
  define z :: rat where "z = of_int (round_half_even (b * 100))"
  have z_err: "\<bar>z - b * 100\<bar> \<le> 1 / 2"
    unfolding z_def by (rule round_half_even_err)
  have cz: "c = z / 100" by (simp add: c_def z_def)
  have c_err: "\<bar>c - b\<bar> \<le> 1 / 200"
    using z_err unfolding cz by linarith
  have c0: "0 \<le> c"
    unfolding c_def using b0 by (intro divide_nonneg_pos) (simp_all add: round_half_even_nonneg)
  have "c < 256" using c_err b_err a_err x1 by linarith
  then have c8: "c < 2 powi 8" by (simp add: pow2_values)
  have "\<bar>nearest_double c - c\<bar> \<le> 2 powi (8 - 54)"
    using c0 c8 by (intro nearest_double_err) simp_all
  then have d_err: "\<bar>nearest_double c - c\<bar> \<le> 1 / 70368744177664"
    by (simp add: pow2_values)
  have "\<bar>nearest_double c - 100 * x\<bar> \<le> 1 / 200 + 1 / 1000000000000"
    using a_err b_err c_err d_err by linarith
  moreover have "py_round2 (nearest_double (nearest_double x * 100)) = nearest_double c"
    by (simp add: py_round2_def a_def b_def c_def)
  ultimately show ?thesis by simp
qed

text \<open>
  Claim C9, as stated, fails: after one \<open>set\<close> and one \<open>get\<close> of the same key the
  counters are one hit and no miss, \<open>hits / (hits + misses)\<close> is 1 and the reported
  hit rate is 100.
\<close>

theorem hit_rate_is_percentage:
  "hits (snd (cache_get (cache_set (CacheManager_init :: string CacheManager) ''k'' ''v'' 60 0) ''k'' 0)) = 1 \<and>
   misses (snd (cache_get (cache_set (CacheManager_init :: string CacheManager) ''k'' ''v'' 60 0) ''k'' 0)) = 0 \<and>
   hit_rate (get_status (snd (cache_get (cache_set (CacheManager_init :: string CacheManager) ''k'' ''v'' 60 0) ''k'' 0))) = 100 \<and>
   hit_rate (get_status (snd (cache_get (cache_set (CacheManager_init :: string CacheManager) ''k'' ''v'' 60 0) ''k'' 0)))
     \<noteq> of_nat (hits (snd (cache_get (cache_set (CacheManager_init :: string CacheManager) ''k'' ''v'' 60 0) ''k'' 0)))
       / of_nat (hits (snd (cache_get (cache_set (CacheManager_init :: string CacheManager) ''k'' ''v'' 60 0) ''k'' 0))
               + misses (snd (cache_get (cache_set (CacheManager_init :: string CacheManager) ''k'' ''v'' 60 0) ''k'' 0)))"
  by code_simp

text \<open>
  Claim C9, amended. The reported hit rate is the percentage
  \<open>100 * hits / (hits + misses)\<close> as computed in double precision and rounded to two
  decimals: the double nearest to a multiple of \<open>1/100\<close>, at most
  \<open>1/200 + 1/10 ^ 12\<close> away from the exact percentage; it is 0 when no \<open>get\<close> has been
  made.
\<close>

theorem get_status_hit_rate:
  "(hits c + misses c = 0 \<longrightarrow> hit_rate (get_status c) = 0) \<and>
   (hits c + misses c > 0 \<longrightarrow>
      \<bar>hit_rate (get_status c) - 100 * (of_nat (hits c) / of_nat (hits c + misses c))\<bar>
        \<le> 1 / 200 + 1 / 10 ^ 12) \<and>
   (\<exists>n::int. hit_rate (get_status c) = nearest_double (of_int n / 100))"
proof (intro conjI impI)
  assume "hits c + misses c = 0"
  then show "hit_rate (get_status c) = 0"
    by (simp add: hit_rate_get_status py_round2_zero)
next
  assume total: "hits c + misses c > 0"
  let ?x = "of_nat (hits c) / of_nat (hits c + misses c) :: rat"
  have "0 \<le> ?x" by simp
  moreover have "?x \<le> 1"
  proof -
    have pos: "(0::rat) < of_nat (hits c + misses c)"
      using total by (simp only: of_nat_0_less_iff)
    have "hits c \<le> hits c + misses c" by simp
    then have "(of_nat (hits c) :: rat) \<le> of_nat (hits c + misses c)"
      by (simp only: of_nat_le_iff)
    then show ?thesis by (simp only: divide_le_eq_1_pos [OF pos])
  qed
  ultimately have "\<bar>py_round2 (nearest_double (nearest_double ?x * 100)) - 100 * ?x\<bar>
      \<le> 1 / 200 + 1 / 10 ^ 12"
    by (rule percentage_err)
  with total show "\<bar>hit_rate (get_status c) - 100 * ?x\<bar> \<le> 1 / 200 + 1 / 10 ^ 12"
    by (simp only: hit_rate_get_status if_True)
next
  show "\<exists>n::int. hit_rate (get_status c) = nearest_double (of_int n / 100)"
    unfolding hit_rate_get_status py_round2_def by blast
qed

theorem get_status_hit_rate_witness:
  "hits (CacheManager_init :: string CacheManager) + misses (CacheManager_init :: string CacheManager) = 0 \<and>
   hit_rate (get_status (CacheManager_init :: string CacheManager)) = 0 \<and>
   hits (\<lparr>cache = [], expiry = [], hits = 23, misses = 137\<rparr> :: string CacheManager) + misses (\<lparr>cache = [], expiry = [], hits = 23, misses = 137\<rparr> :: string CacheManager) > 0 \<and>
   hit_rate (get_status (\<lparr>cache = [], expiry = [], hits = 23, misses = 137\<rparr> :: string CacheManager)) = nearest_double (1437 / 100) \<and>
   \<bar>hit_rate (get_status (\<lparr>cache = [], expiry = [], hits = 23, misses = 137\<rparr> :: string CacheManager)) - 100 * (23 / 160)\<bar> \<le> 1 / 200 + 1 / 10 ^ 12"
proof -
  have c0: "hits (CacheManager_init :: string CacheManager) = 0"
    "misses (CacheManager_init :: string CacheManager) = 0"
    by (simp_all add: CacheManager_init_def)
  have rate: "hit_rate (get_status (\<lparr>cache = [], expiry = [], hits = 23, misses = 137\<rparr> :: string CacheManager)) = nearest_double (1437 / 100)"
    by code_simp
  show ?thesis
    using c0 rate get_status_hit_rate [of "CacheManager_init :: string CacheManager"]
      get_status_hit_rate [of "\<lparr>cache = [], expiry = [], hits = 23, misses = 137\<rparr> :: string CacheManager"]
    by simp
qed

text \<open>
  The double arithmetic shows in the result: with 23 hits and 137 misses the product is
  just under 14.375 and the rate is the double of 14.37; with 49 hits and 111 misses
  the product is just over 30.625 and the rate is the double of 30.63.
\<close>

lemma hit_rate_double_arithmetic:
  "nearest_double (nearest_double (23 / 160) * 100) < 14375 / 1000 \<and>
   hit_rate (get_status (\<lparr>cache = [], expiry = [], hits = 23, misses = 137\<rparr> :: string CacheManager)) = nearest_double (1437 / 100) \<and>
   nearest_double (nearest_double (49 / 160) * 100) > 30625 / 1000 \<and>
   hit_rate (get_status (\<lparr>cache = [], expiry = [], hits = 49, misses = 111\<rparr> :: string CacheManager)) = nearest_double (3063 / 100)"
  by code_simp

subsection \<open>Reservations: failures\<close>

text \<open>
  Claim C3 at an unknown item id. On the seeded ledger, \<open>reserve_items\<close> for a new order
  with the single pair (9999, 1) fails the availability check of that pair, and building
  the failure dictionary raises \<open>KeyError\<close> (line 104 reads \<open>self.inventory[item_id]\<close>):
  no \<open>InsufficientInventory\<close> result is returned. The state is unchanged.
\<close>

theorem reserve_items_unknown_item_raises:
  "reserve_items inventory_manager ''O9'' [(9999, 1)] 0 = (Inl KeyError, inventory_manager)"
  by (simp add: reserve_items_def check_availability_def seeded_defs)

subsection \<open>Reservations: round trip\<close>

text \<open>
  Claim C2 at a list that names an item twice. On the seeded ledger,
  \<open>reserve_items\<close> for order O1 with the pairs (1001, 5), (1001, 5) succeeds and raises
  \<open>reserved\<close> of item 1001 from 3 to 13, but records only 5 units under the item, so
  that \<open>release_reservation\<close> succeeds and leaves \<open>reserved\<close> at 8, not at 3.
\<close>

theorem roundtrip_duplicate_item_ids:
  "fst (reserve_items inventory_manager ''O1'' [(1001, 5), (1001, 5)] 0)
     = Inr (Reserved ''O1'' 1 [(1001, 5)]) \<and>
   fst (release_reservation (snd (reserve_items inventory_manager ''O1'' [(1001, 5), (1001, 5)] 0)) ''O1'')
     = Inr (Released ''O1'' 1) \<and>
   map_option reserved (map_of (inventory inventory_manager) 1001) = Some 3 \<and>
   map_option reserved (map_of (inventory
       (snd (reserve_items inventory_manager ''O1'' [(1001, 5), (1001, 5)] 0))) 1001) = Some 13 \<and>
   map_option reserved (map_of (inventory
       (snd (release_reservation
          (snd (reserve_items inventory_manager ''O1'' [(1001, 5), (1001, 5)] 0)) ''O1''))) 1001) = Some 8"
  by (simp add: reserve_items_def release_reservation_def check_availability_def seeded_defs)

subsection \<open>Frame conditions\<close>

lemma only_reserved_changed_refl: "only_reserved_changed T xs xs"
  by (simp add: only_reserved_changed_def list_all2_same split_beta)

lemma only_reserved_changed_trans:
  "only_reserved_changed T xs ys \<Longrightarrow> only_reserved_changed T ys zs \<Longrightarrow> only_reserved_changed T xs zs"
  by (auto simp add: only_reserved_changed_def list_all2_conv_all_nth split_beta)

lemma only_reserved_changed_map_entry:
  "k \<in> T \<Longrightarrow> only_reserved_changed T xs (AList.map_entry k (\<lambda>it. it\<lparr>reserved := g it\<rparr>) xs)"
proof (induction xs)
  case Nil
  then show ?case by (simp add: only_reserved_changed_def)
next
  case (Cons p xs)
  then show ?case
    using only_reserved_changed_refl [of T xs]
    by (auto simp add: only_reserved_changed_def split_beta)
qed

lemma reserve_loop_frame:
  "fst ` set reqs \<subseteq> T \<Longrightarrow>
     only_reserved_changed T (inventory m) (inventory (snd (snd (reserve_loop m d reqs))))"
proof (induction reqs arbitrary: m d)
  case Nil
  then show ?case by (simp add: only_reserved_changed_refl)
next
  case (Cons p reqs)
  obtain i q where p: "p = (i, q)" by (cases p)
  show ?case
  proof (cases "map_of (inventory m) i")
    case None
    then show ?thesis by (simp add: p only_reserved_changed_refl)
  next
    case (Some it)
    let ?m1 = "m\<lparr>inventory := AList.map_entry i (\<lambda>it. it\<lparr>reserved := reserved it + q\<rparr>) (inventory m),
               cache_manager := cache_delete (cache_manager m) (item_key i)\<rparr>"
    from Cons.prems p have "i \<in> T" and rest: "fst ` set reqs \<subseteq> T" by auto
    then have "only_reserved_changed T (inventory m) (inventory ?m1)"
      using only_reserved_changed_map_entry [where k = i and T = T and g = "\<lambda>it. reserved it + q" and xs = "inventory m"] by simp
    moreover have "only_reserved_changed T (inventory ?m1)
        (inventory (snd (snd (reserve_loop ?m1 (AList.update i q d) reqs))))"
      using Cons.IH [OF rest] .
    ultimately show ?thesis
      using Some by (simp add: p only_reserved_changed_trans)
  qed
qed

lemma release_loop_frame:
  "fst ` set rs \<subseteq> T \<Longrightarrow>
     only_reserved_changed T (inventory m) (inventory (snd (release_loop m rs)))"
proof (induction rs arbitrary: m)
  case Nil
  then show ?case by (simp add: only_reserved_changed_refl)
next
  case (Cons p rs)
  obtain i q where p: "p = (i, q)" by (cases p)
  show ?case
  proof (cases "map_of (inventory m) i")
    case None
    then show ?thesis by (simp add: p only_reserved_changed_refl)
  next
    case (Some it)
    let ?m1 = "m\<lparr>inventory := AList.map_entry i (\<lambda>it. it\<lparr>reserved := reserved it - q\<rparr>) (inventory m),
               cache_manager := cache_delete (cache_manager m) (item_key i)\<rparr>"
    from Cons.prems p have "i \<in> T" and rest: "fst ` set rs \<subseteq> T" by auto
    then have "only_reserved_changed T (inventory m) (inventory ?m1)"
      using only_reserved_changed_map_entry [where k = i and T = T and g = "\<lambda>it. reserved it - q" and xs = "inventory m"] by simp
    moreover have "only_reserved_changed T (inventory ?m1) (inventory (snd (release_loop ?m1 rs)))"
      using Cons.IH [OF rest] .
    ultimately show ?thesis
      using Some by (simp add: p only_reserved_changed_trans)
  qed
qed

lemma reserve_items_frame:
  "only_reserved_changed (fst ` set reqs) (inventory m)
     (inventory (snd (reserve_items m order_id reqs utcnow)))"
proof -
  have loop: "only_reserved_changed (fst ` set reqs) (inventory m)
      (inventory (snd (snd (reserve_loop m [] reqs))))"
    by (rule reserve_loop_frame) simp
  show ?thesis
    using loop
    by (auto simp add: reserve_items_def only_reserved_changed_refl split: option.splits prod.splits)
qed

lemma release_reservation_frame:
  "only_reserved_changed
     (case map_of (reservations m) order_id of None \<Rightarrow> {} | Some r \<Rightarrow> fst ` set (items r))
     (inventory m) (inventory (snd (release_reservation m order_id)))"
proof (cases "map_of (reservations m) order_id")
  case None
  then show ?thesis by (simp add: release_reservation_def only_reserved_changed_refl)
next
  case (Some r)
  have "only_reserved_changed (fst ` set (items r)) (inventory m)
      (inventory (snd (release_loop m (items r))))"
    by (rule release_loop_frame) simp
  then show ?thesis
    using Some by (auto simp add: release_reservation_def split: option.splits prod.splits)
qed

lemma only_stock_changed_refl: "only_stock_changed T xs xs"
  by (simp add: only_stock_changed_def list_all2_same split_beta)

lemma only_stock_changed_map_entry:
  "k \<in> T \<Longrightarrow> only_stock_changed T xs (AList.map_entry k (\<lambda>it. it\<lparr>stock := g it\<rparr>) xs)"
proof (induction xs)
  case Nil
  then show ?case by (simp add: only_stock_changed_def)
next
  case (Cons p xs)
  then show ?case
    using only_stock_changed_refl [of T xs]
    by (auto simp add: only_stock_changed_def split_beta)
qed

lemma adjust_inventory_frame:
  "only_stock_changed {i} (inventory m)
     (inventory (snd (adjust_inventory m i adjustment reason utcnow)))"
  using only_stock_changed_map_entry [where k = i and T = "{i}" and xs = "inventory m"]
  by (auto simp add: adjust_inventory_def Let_def only_stock_changed_refl split: option.splits)

text \<open>
  Claim C10. In every state and for all inputs, also when the call fails or raises:
  \<open>reserve_items\<close> changes at most the \<open>reserved\<close> field of the items named in its
  list, \<open>release_reservation\<close> at most the \<open>reserved\<close> field of the items of the
  order's reservation (nothing when there is none), and \<open>adjust_inventory\<close> at most the
  \<open>stock\<close> field of its item; \<open>item_id\<close>, \<open>name\<close> and \<open>sku\<close> of every item, the
  keys and their order, and the whole entry of every other item are unchanged.
\<close>

theorem mutations_frame:
  "only_reserved_changed (fst ` set reqs) (inventory m)
     (inventory (snd (reserve_items m order_id reqs utcnow))) \<and>
   only_reserved_changed
     (case map_of (reservations m) order_id of None \<Rightarrow> {} | Some r \<Rightarrow> fst ` set (items r))
     (inventory m) (inventory (snd (release_reservation m order_id))) \<and>
   only_stock_changed {i} (inventory m)
     (inventory (snd (adjust_inventory m i adjustment reason utcnow)))"
  by (intro conjI reserve_items_frame release_reservation_frame adjust_inventory_frame)

theorem mutations_frame_witness:
  "only_reserved_changed {1001} (inventory inventory_manager)
     (inventory (snd (reserve_items inventory_manager ''O1'' [(1001, 5)] 0))) \<and>
   map_option reserved (map_of (inventory (snd (reserve_items inventory_manager ''O1'' [(1001, 5)] 0))) 1001)
     = Some 8 \<and>
   only_reserved_changed {1001}
     (inventory (snd (reserve_items inventory_manager ''O1'' [(1001, 5)] 0)))
     (inventory (snd (release_reservation (snd (reserve_items inventory_manager ''O1'' [(1001, 5)] 0)) ''O1''))) \<and>
   map_option reserved (map_of (inventory (snd (release_reservation
       (snd (reserve_items inventory_manager ''O1'' [(1001, 5)] 0)) ''O1''))) 1001) = Some 3 \<and>
   only_stock_changed {1001} (inventory inventory_manager)
     (inventory (snd (adjust_inventory inventory_manager 1001 100 ''restock'' 0))) \<and>
   map_option stock (map_of (inventory (snd (adjust_inventory inventory_manager 1001 100 ''restock'' 0))) 1001)
     = Some 147"
proof -
  let ?m1 = "snd (reserve_items inventory_manager ''O1'' [(1001, 5)] 0)"
  have live: "map_of (reservations ?m1) ''O1'' = Some \<lparr>items = [(1001, 5)], timestamp = 0\<rparr>"
    by (simp add: reserve_items_def check_availability_def seeded_defs)
  have vals:
    "map_option reserved (map_of (inventory ?m1) 1001) = Some 8"
    "map_option reserved (map_of (inventory (snd (release_reservation ?m1 ''O1''))) 1001) = Some 3"
    "map_option stock (map_of (inventory (snd (adjust_inventory inventory_manager 1001 100 ''restock'' 0))) 1001)
       = Some 147"
    by (simp_all add: reserve_items_def release_reservation_def adjust_inventory_def
        check_availability_def seeded_defs)
  show ?thesis
    using live vals
      mutations_frame [where reqs = "[(1001, 5)]" and m = inventory_manager and order_id = "''O1''"
        and utcnow = 0 and i = 1001 and adjustment = 100 and reason = "''restock''"]
      mutations_frame [where reqs = "[]" and m = ?m1 and order_id = "''O1''"
        and utcnow = 0 and i = 1001 and adjustment = 0 and reason = "''none''"]
    by simp
qed

subsection \<open>The stock invariant\<close>

subsubsection \<open>Dictionary facts\<close>

lemma qty_of_Nil: "qty_of [] j = 0"
  by (simp add: qty_of_def)

lemma qty_of_Cons: "qty_of ((i, q) # xs) j = (if j = i then q else qty_of xs j)"
  by (simp add: qty_of_def)

lemma qty_of_absent: "j \<notin> fst ` set xs \<Longrightarrow> qty_of xs j = 0"
  using map_of_eq_None_iff [of xs j] by (simp add: qty_of_def)

lemma qty_of_nonneg: "\<forall>(i, q) \<in> set xs. 0 \<le> q \<Longrightarrow> 0 \<le> qty_of xs j"
  by (auto simp add: qty_of_def split: option.splits dest: map_of_SomeD)

lemma update_absent: "k \<notin> fst ` set al \<Longrightarrow> AList.update k v al = al @ [(k, v)]"
  by (induction al) auto

lemma held_append: "held (rs @ [(order_id, r)]) i = held rs i + qty_of (items r) i"
  by (simp add: held_def)

lemma held_delete:
  "distinct (map fst rs) \<Longrightarrow> map_of rs order_id = Some r \<Longrightarrow>
     held (AList.delete order_id rs) i = held rs i - qty_of (items r) i"
proof (induction rs)
  case Nil
  then show ?case by simp
next
  case (Cons p rs)
  obtain k v where p: "p = (k, v)" by (cases p)
  show ?case
  proof (cases "k = order_id")
    case True
    with Cons.prems p have "v = r" and "order_id \<notin> fst ` set rs" by auto
    then show ?thesis using True p by (simp add: held_def)
  next
    case False
    with Cons p show ?thesis by (simp add: held_def)
  qed
qed

lemma held_nonneg:
  "\<forall>(order_id, r) \<in> set rs. reservation_ok xs r \<Longrightarrow> 0 \<le> held rs i"
proof (induction rs)
  case Nil
  then show ?case by (simp add: held_def)
next
  case (Cons p rs)
  obtain k v where p: "p = (k, v)" by (cases p)
  from Cons.prems p have "reservation_ok xs v" by simp
  then have "0 \<le> qty_of (items v) i"
    by (intro qty_of_nonneg) (auto simp add: reservation_ok_def)
  moreover from Cons have "0 \<le> held rs i" by simp
  ultimately show ?case using p by (simp add: held_def)
qed

subsection \<open>Both loop bodies on a well-formed request\<close>

lemma map_fst_map_entry: "map fst (AList.map_entry k f xs) = map fst xs"
  by (induction xs) auto

lemma known_iff: "(map_of xs i \<noteq> None) = (i \<in> fst ` set xs)"
  by (simp add: map_of_eq_None_iff)

lemma validate_items_None:
  "validate_items m reqs = None \<Longrightarrow> \<forall>(i, q) \<in> set reqs. check_availability m i q"
  by (induction m reqs rule: validate_items.induct) (auto split: if_splits option.splits)

lemma check_availability_known:
  "check_availability m i q \<Longrightarrow>
     \<exists>it. map_of (inventory m) i = Some it \<and> q \<le> stock it - reserved it"
  by (auto simp add: check_availability_def split: option.splits)

lemma reserve_loop_known:
  "distinct (map fst reqs) \<Longrightarrow> fst ` set reqs \<subseteq> fst ` set (inventory m) \<Longrightarrow>
   fst ` set d \<inter> fst ` set reqs = {} \<Longrightarrow>
     \<exists>m'. reserve_loop m d reqs = (None, d @ reqs, m') \<and>
          reservations m' = reservations m \<and>
          map fst (inventory m') = map fst (inventory m) \<and>
          (\<forall>j. map_of (inventory m') j =
             map_option (\<lambda>it. it\<lparr>reserved := reserved it + qty_of reqs j\<rparr>) (map_of (inventory m) j))"
proof (induction reqs arbitrary: m d)
  case Nil
  then show ?case by (simp add: qty_of_Nil option.map_ident)
next
  case (Cons p reqs)
  obtain i q where p: "p = (i, q)" by (cases p)
  let ?m1 = "m\<lparr>inventory := AList.map_entry i (\<lambda>it. it\<lparr>reserved := reserved it + q\<rparr>) (inventory m),
             cache_manager := cache_delete (cache_manager m) (item_key i)\<rparr>"
  from Cons.prems p have i_known: "i \<in> fst ` set (inventory m)" by simp
  then obtain it where it: "map_of (inventory m) i = Some it"
    using known_iff [of "inventory m" i] by auto
  from Cons.prems p have i_fresh: "i \<notin> fst ` set reqs" and i_new: "i \<notin> fst ` set d" by auto
  have d1: "AList.update i q d = d @ [(i, q)]"
    using i_new by (rule update_absent)
  have "distinct (map fst reqs)" using Cons.prems by simp
  moreover have "fst ` set reqs \<subseteq> fst ` set (inventory ?m1)"
    using Cons.prems by (simp add: dom_map_entry)
  moreover have "fst ` set (d @ [(i, q)]) \<inter> fst ` set reqs = {}"
    using Cons.prems p i_fresh by auto
  ultimately obtain m' where m':
    "reserve_loop ?m1 (d @ [(i, q)]) reqs = (None, (d @ [(i, q)]) @ reqs, m')"
    "reservations m' = reservations ?m1"
    "map fst (inventory m') = map fst (inventory ?m1)"
    "\<forall>j. map_of (inventory m') j =
       map_option (\<lambda>it. it\<lparr>reserved := reserved it + qty_of reqs j\<rparr>) (map_of (inventory ?m1) j)"
    using Cons.IH [of ?m1 "d @ [(i, q)]"] by blast
  have keys: "map fst (inventory ?m1) = map fst (inventory m)"
    by (simp add: map_fst_map_entry)
  have "\<forall>j. map_of (inventory m') j =
       map_option (\<lambda>it. it\<lparr>reserved := reserved it + qty_of (p # reqs) j\<rparr>) (map_of (inventory m) j)"
  proof
    fix j
    show "map_of (inventory m') j =
       map_option (\<lambda>it. it\<lparr>reserved := reserved it + qty_of (p # reqs) j\<rparr>) (map_of (inventory m) j)"
    proof (cases "j = i")
      case True
      then show ?thesis
        using m'(4) it i_fresh by (simp add: p qty_of_Cons qty_of_absent map_of_map_entry)
    next
      case False
      then show ?thesis
        using m'(4) by (simp add: p qty_of_Cons map_of_map_entry)
    qed
  qed
  then show ?case
    using m'(1,2,3) it d1 keys by (simp add: p)
qed

lemma release_loop_known:
  "distinct (map fst rs) \<Longrightarrow> fst ` set rs \<subseteq> fst ` set (inventory m) \<Longrightarrow>
     \<exists>m'. release_loop m rs = (None, m') \<and>
          reservations m' = reservations m \<and>
          map fst (inventory m') = map fst (inventory m) \<and>
          (\<forall>j. map_of (inventory m') j =
             map_option (\<lambda>it. it\<lparr>reserved := reserved it - qty_of rs j\<rparr>) (map_of (inventory m) j))"
proof (induction rs arbitrary: m)
  case Nil
  then show ?case by (simp add: qty_of_Nil option.map_ident)
next
  case (Cons p rs)
  obtain i q where p: "p = (i, q)" by (cases p)
  let ?m1 = "m\<lparr>inventory := AList.map_entry i (\<lambda>it. it\<lparr>reserved := reserved it - q\<rparr>) (inventory m),
             cache_manager := cache_delete (cache_manager m) (item_key i)\<rparr>"
  from Cons.prems p have i_known: "i \<in> fst ` set (inventory m)" by simp
  then obtain it where it: "map_of (inventory m) i = Some it"
    using known_iff [of "inventory m" i] by auto
  from Cons.prems p have i_fresh: "i \<notin> fst ` set rs" by auto
  have "distinct (map fst rs)" using Cons.prems by simp
  moreover have "fst ` set rs \<subseteq> fst ` set (inventory ?m1)"
    using Cons.prems by (simp add: dom_map_entry)
  ultimately obtain m' where m':
    "release_loop ?m1 rs = (None, m')"
    "reservations m' = reservations ?m1"
    "map fst (inventory m') = map fst (inventory ?m1)"
    "\<forall>j. map_of (inventory m') j =
       map_option (\<lambda>it. it\<lparr>reserved := reserved it - qty_of rs j\<rparr>) (map_of (inventory ?m1) j)"
    using Cons.IH [of ?m1] by blast
  have keys: "map fst (inventory ?m1) = map fst (inventory m)"
    by (simp add: map_fst_map_entry)
  have "\<forall>j. map_of (inventory m') j =
       map_option (\<lambda>it. it\<lparr>reserved := reserved it - qty_of (p # rs) j\<rparr>) (map_of (inventory m) j)"
  proof
    fix j
    show "map_of (inventory m') j =
       map_option (\<lambda>it. it\<lparr>reserved := reserved it - qty_of (p # rs) j\<rparr>) (map_of (inventory m) j)"
    proof (cases "j = i")
      case True
      then show ?thesis
        using m'(4) it i_fresh by (simp add: p qty_of_Cons qty_of_absent map_of_map_entry)
    next
      case False
      then show ?thesis
        using m'(4) by (simp add: p qty_of_Cons map_of_map_entry)
    qed
  qed
  then show ?case
    using m'(1,2,3) it keys by (simp add: p)
qed

subsection \<open>The ledger invariant\<close>

lemma qty_of_cases: "qty_of xs i = 0 \<or> (i, qty_of xs i) \<in> set xs"
  by (auto simp add: qty_of_def split: option.splits dest: map_of_SomeD)

lemma reservation_ok_keys:
  "map fst ys = map fst xs \<Longrightarrow> reservation_ok ys r = reservation_ok xs r"
proof -
  assume "map fst ys = map fst xs"
  then have "set (map fst ys) = set (map fst xs)" by simp
  then have "fst ` set ys = fst ` set xs" by simp
  then show ?thesis by (simp add: reservation_ok_def)
qed

lemma ledger_inv_seeded: "ledger_inv (InventoryManager_init c)"
  by (simp add: ledger_inv_def held_def InventoryManager_init_def initialize_inventory_def)

lemma ledger_inv_stock_invariant: "ledger_inv m \<Longrightarrow> stock_invariant m"
proof -
  assume inv: "ledger_inv m"
  have "0 \<le> reserved it \<and> reserved it \<le> stock it" if "(i, it) \<in> set (inventory m)" for i it
  proof -
    from inv that have "map_of (inventory m) i = Some it"
      by (simp add: ledger_inv_def)
    with inv have "held (reservations m) i \<le> reserved it" "reserved it \<le> stock it"
      by (simp_all add: ledger_inv_def)
    moreover from inv have "0 \<le> held (reservations m) i"
      by (intro held_nonneg [of _ "inventory m"]) (simp add: ledger_inv_def)
    ultimately show ?thesis by simp
  qed
  then show ?thesis
    by (auto simp add: stock_invariant_def list_all_iff)
qed

lemma get_item_ledger:
  "inventory (snd (get_item m i t1 t2 t3)) = inventory m \<and>
   reservations (snd (get_item m i t1 t2 t3)) = reservations m"
  by (simp add: get_item_def Let_def split: prod.splits option.splits)

lemma ledger_inv_get_item: "ledger_inv m \<Longrightarrow> ledger_inv (snd (get_item m i t1 t2 t3))"
  by (simp add: ledger_inv_def get_item_ledger)

lemma ledger_inv_adjust:
  assumes inv: "ledger_inv m" and adm: "admissible m (AdjustInventory i d reason t)"
  shows "ledger_inv (snd (adjust_inventory m i d reason t))"
proof (cases "map_of (inventory m) i")
  case None
  with inv show ?thesis by (simp add: adjust_inventory_def)
next
  case (Some it)
  show ?thesis
  proof (cases "stock it + d < 0")
    case True
    with Some inv show ?thesis by (simp add: adjust_inventory_def Let_def)
  next
    case False
    let ?xs = "AList.map_entry i (\<lambda>x. x\<lparr>stock := stock it + d\<rparr>) (inventory m)"
    from False Some adm have ok: "reserved it \<le> stock it + d" by simp
    have keys: "map fst ?xs = map fst (inventory m)"
      by (simp add: map_fst_map_entry)
    have res: "\<forall>(order_id, r) \<in> set (reservations m). reservation_ok ?xs r"
      using inv by (simp add: ledger_inv_def reservation_ok_keys [OF keys])
    have bounds: "held (reservations m) j \<le> reserved it' \<and> reserved it' \<le> stock it'"
      if "map_of ?xs j = Some it'" for j it'
    proof (cases "j = i")
      case True
      with that Some have "it' = it\<lparr>stock := stock it + d\<rparr>"
        by (simp add: map_of_map_entry)
      moreover from inv Some have "held (reservations m) i \<le> reserved it"
        by (simp add: ledger_inv_def)
      ultimately show ?thesis using ok True by simp
    next
      case False
      with that have "map_of (inventory m) j = Some it'"
        by (simp add: map_of_map_entry)
      with inv show ?thesis by (simp add: ledger_inv_def)
    qed
    have state: "inventory (snd (adjust_inventory m i d reason t)) = ?xs"
      "reservations (snd (adjust_inventory m i d reason t)) = reservations m"
      using Some False by (simp_all add: adjust_inventory_def Let_def)
    show ?thesis
      unfolding ledger_inv_def state
      using inv keys res bounds by (simp add: ledger_inv_def)
  qed
qed

lemma ledger_inv_release:
  assumes inv: "ledger_inv m"
  shows "ledger_inv (snd (release_reservation m order_id))"
proof (cases "map_of (reservations m) order_id")
  case None
  with inv show ?thesis by (simp add: release_reservation_def)
next
  case (Some r)
  then have mem: "(order_id, r) \<in> set (reservations m)" by (rule map_of_SomeD)
  with inv have ok: "reservation_ok (inventory m) r" by (auto simp add: ledger_inv_def)
  then have d: "distinct (map fst (items r))"
    and known: "fst ` set (items r) \<subseteq> fst ` set (inventory m)"
    and nonneg: "\<forall>(i, q) \<in> set (items r). 0 \<le> q"
    by (auto simp add: reservation_ok_def)
  from release_loop_known [OF d known] obtain m' where m':
    "release_loop m (items r) = (None, m')"
    "reservations m' = reservations m"
    "map fst (inventory m') = map fst (inventory m)"
    "\<forall>j. map_of (inventory m') j =
       map_option (\<lambda>it. it\<lparr>reserved := reserved it - qty_of (items r) j\<rparr>) (map_of (inventory m) j)"
    by blast
  let ?rs = "AList.delete order_id (reservations m)"
  have state: "inventory (snd (release_reservation m order_id)) = inventory m'"
    "reservations (snd (release_reservation m order_id)) = ?rs"
    using Some m'(1,2) by (simp_all add: release_reservation_def)
  have dist: "distinct (map fst ?rs)"
    using inv by (simp add: ledger_inv_def distinct_delete)
  have "set ?rs \<subseteq> set (reservations m)"
    by (auto simp add: AList.delete_eq)
  then have res: "\<forall>(order_id, r) \<in> set ?rs. reservation_ok (inventory m') r"
    using inv by (auto simp add: ledger_inv_def reservation_ok_keys [OF m'(3)])
  have bounds: "held ?rs j \<le> reserved it' \<and> reserved it' \<le> stock it'"
    if "map_of (inventory m') j = Some it'" for j it'
  proof -
    from that m'(4) obtain it where it: "map_of (inventory m) j = Some it"
      and it': "it' = it\<lparr>reserved := reserved it - qty_of (items r) j\<rparr>"
      by auto
    from inv it have "held (reservations m) j \<le> reserved it" "reserved it \<le> stock it"
      by (simp_all add: ledger_inv_def)
    moreover have "held ?rs j = held (reservations m) j - qty_of (items r) j"
      using inv Some by (intro held_delete) (simp_all add: ledger_inv_def)
    moreover have "0 \<le> qty_of (items r) j"
      using nonneg by (rule qty_of_nonneg)
    ultimately show ?thesis using it' by simp
  qed
  show ?thesis
    unfolding ledger_inv_def state
    using inv m'(3) dist res bounds by (simp add: ledger_inv_def)
qed

lemma ledger_inv_reserve:
  assumes inv: "ledger_inv m"
    and adm: "admissible m (ReserveItems order_id reqs t)"
  shows "ledger_inv (snd (reserve_items m order_id reqs t))"
proof (cases "map_of (reservations m) order_id \<noteq> None \<or> validate_items m reqs \<noteq> None")
  case True
  then have "snd (reserve_items m order_id reqs t) = m"
    by (auto simp add: reserve_items_def)
  with inv show ?thesis by simp
next
  case False
  then have fresh: "map_of (reservations m) order_id = None"
    and valid: "validate_items m reqs = None" by auto
  from adm have d: "distinct (map fst reqs)" and nonneg: "\<forall>(i, q) \<in> set reqs. 0 \<le> q"
    by (auto simp add: list_all_iff)
  have avail: "\<exists>it. map_of (inventory m) i = Some it \<and> q \<le> stock it - reserved it"
    if "(i, q) \<in> set reqs" for i q
    using validate_items_None [OF valid] that by (auto intro: check_availability_known)
  have known: "fst ` set reqs \<subseteq> fst ` set (inventory m)"
  proof
    fix i assume "i \<in> fst ` set reqs"
    then obtain q where "(i, q) \<in> set reqs" by auto
    from avail [OF this] show "i \<in> fst ` set (inventory m)"
      using known_iff [of "inventory m" i] by auto
  qed
  from reserve_loop_known [OF d known, of "[]"] obtain m' where m':
    "reserve_loop m [] reqs = (None, reqs, m')"
    "reservations m' = reservations m"
    "map fst (inventory m') = map fst (inventory m)"
    "\<forall>j. map_of (inventory m') j =
       map_option (\<lambda>it. it\<lparr>reserved := reserved it + qty_of reqs j\<rparr>) (map_of (inventory m) j)"
    by auto
  let ?r = "\<lparr>items = reqs, timestamp = t\<rparr>"
  let ?rs = "reservations m @ [(order_id, ?r)]"
  from fresh have absent: "order_id \<notin> fst ` set (reservations m)"
    by (simp add: map_of_eq_None_iff)
  have state: "inventory (snd (reserve_items m order_id reqs t)) = inventory m'"
    "reservations (snd (reserve_items m order_id reqs t)) = ?rs"
    using fresh valid m'(1,2) update_absent [OF absent, of ?r]
    by (simp_all add: reserve_items_def)
  have dist: "distinct (map fst ?rs)"
    using inv absent by (simp add: ledger_inv_def)
  have "i \<in> fst ` set (inventory m)" if "(i, q) \<in> set reqs" for i q
    using known that by (auto simp add: image_iff subset_iff Bex_def)
  then have "reservation_ok (inventory m) ?r"
    using d nonneg by (auto simp add: reservation_ok_def)
  then have new_ok: "reservation_ok (inventory m') ?r"
    by (simp add: reservation_ok_keys [OF m'(3)])
  have res: "\<forall>(order_id, r) \<in> set ?rs. reservation_ok (inventory m') r"
    using inv new_ok by (auto simp add: ledger_inv_def reservation_ok_keys [OF m'(3)])
  have bounds: "held ?rs j \<le> reserved it' \<and> reserved it' \<le> stock it'"
    if "map_of (inventory m') j = Some it'" for j it'
  proof -
    from that m'(4) obtain it where it: "map_of (inventory m) j = Some it"
      and it': "it' = it\<lparr>reserved := reserved it + qty_of reqs j\<rparr>"
      by auto
    from inv it have old: "held (reservations m) j \<le> reserved it" "reserved it \<le> stock it"
      by (simp_all add: ledger_inv_def)
    have "reserved it + qty_of reqs j \<le> stock it"
    proof (cases "qty_of reqs j = 0")
      case True
      with old show ?thesis by simp
    next
      case False
      with qty_of_cases [of reqs j] have "(j, qty_of reqs j) \<in> set reqs" by simp
      from avail [OF this] it show ?thesis by simp
    qed
    then show ?thesis
      using old it' by (simp add: held_append)
  qed
  show ?thesis
    unfolding ledger_inv_def state
    using inv m'(3) dist res bounds by (simp add: ledger_inv_def)
qed

lemma ledger_inv_step:
  "ledger_inv m \<Longrightarrow> admissible m x \<Longrightarrow> ledger_inv (apply_operation m x)"
proof (cases x)
  case (GetItem i t1 t2 t3)
  assume "ledger_inv m"
  then show ?thesis using GetItem by (simp add: ledger_inv_get_item)
next
  case (CheckAvailability i q)
  assume "ledger_inv m"
  then show ?thesis using CheckAvailability by simp
next
  case (ReserveItems order_id reqs t)
  assume "ledger_inv m" "admissible m x"
  then show ?thesis using ReserveItems by (simp only: apply_operation.simps ledger_inv_reserve)
next
  case (ReleaseReservation order_id)
  assume "ledger_inv m"
  then show ?thesis using ReleaseReservation by (simp add: ledger_inv_release)
next
  case (AdjustInventory i d reason t)
  assume "ledger_inv m" "admissible m x"
  then show ?thesis using AdjustInventory by (simp only: apply_operation.simps ledger_inv_adjust)
next
  case (GetLowStockItems threshold)
  assume "ledger_inv m"
  then show ?thesis using GetLowStockItems by simp
qed

lemma ledger_inv_run:
  "ledger_inv m \<Longrightarrow> admissible_run m ops \<Longrightarrow> ledger_inv (run_operations m ops)"
proof (induction ops arbitrary: m)
  case Nil
  then show ?case by (simp add: run_operations_def)
next
  case (Cons x ops)
  from Cons.prems have "ledger_inv (apply_operation m x)"
    by (simp add: ledger_inv_step)
  moreover from Cons.prems have "admissible_run (apply_operation m x) ops" by simp
  ultimately have "ledger_inv (run_operations (apply_operation m x) ops)"
    by (rule Cons.IH)
  then show ?case by (simp add: run_operations_def)
qed

text \<open>
  Claim C1, as stated, fails: on the seeded ledger \<open>adjust_inventory(1001, -46, _)\<close> is
  accepted (the new stock 1 is not negative) and leaves item 1001 with stock 1 and
  reserved 3.
\<close>

theorem adjust_below_reserved:
  "fst (adjust_inventory inventory_manager 1001 (- 46) ''damaged'' 0)
     = Adjusted 1001 47 1 (- 46) ''damaged'' \<and>
   map_option stock (map_of (inventory
       (run_operations inventory_manager [AdjustInventory 1001 (- 46) ''damaged'' 0])) 1001) = Some 1 \<and>
   map_option reserved (map_of (inventory
       (run_operations inventory_manager [AdjustInventory 1001 (- 46) ''damaged'' 0])) 1001) = Some 3 \<and>
   \<not> stock_invariant (run_operations inventory_manager [AdjustInventory 1001 (- 46) ''damaged'' 0])"
  by (simp add: run_operations_def stock_invariant_def adjust_inventory_def seeded_defs)

text \<open>
  Claim C1, amended. Starting from the seeded catalog (with any cache), after every sequence of ledger
  operations in which each \<open>reserve_items\<close> call names pairwise distinct item ids with
  non-negative quantities and each accepted \<open>adjust_inventory\<close> keeps
  \<open>stock + delta \<ge> reserved\<close>, every item has \<open>0 \<le> reserved \<le> stock\<close>.
\<close>

theorem stock_invariant_admissible:
  "admissible_run (InventoryManager_init c) ops \<Longrightarrow>
     stock_invariant (run_operations (InventoryManager_init c) ops)"
  by (intro ledger_inv_stock_invariant ledger_inv_run ledger_inv_seeded)

theorem stock_invariant_admissible_witness:
  "admissible_run inventory_manager
     [ReserveItems ''O1'' [(1001, 30), (1002, 30)] 0, GetItem 1001 1 2 3,
      AdjustInventory 1001 (- 10) ''damaged'' 4, ReleaseReservation ''O1'',
      AdjustInventory 1001 (- 34) ''damaged'' 5] \<and>
   stock_invariant (run_operations inventory_manager
     [ReserveItems ''O1'' [(1001, 30), (1002, 30)] 0, GetItem 1001 1 2 3,
      AdjustInventory 1001 (- 10) ''damaged'' 4, ReleaseReservation ''O1'',
      AdjustInventory 1001 (- 34) ''damaged'' 5]) \<and>
   map_option stock (map_of (inventory (run_operations inventory_manager
     [ReserveItems ''O1'' [(1001, 30), (1002, 30)] 0, GetItem 1001 1 2 3,
      AdjustInventory 1001 (- 10) ''damaged'' 4, ReleaseReservation ''O1'',
      AdjustInventory 1001 (- 34) ''damaged'' 5])) 1001) = Some 3"
proof -
  have adm: "admissible_run inventory_manager
     [ReserveItems ''O1'' [(1001, 30), (1002, 30)] 0, GetItem 1001 1 2 3,
      AdjustInventory 1001 (- 10) ''damaged'' 4, ReleaseReservation ''O1'',
      AdjustInventory 1001 (- 34) ''damaged'' 5]"
    by code_simp
  have val: "map_option stock (map_of (inventory (run_operations inventory_manager
     [ReserveItems ''O1'' [(1001, 30), (1002, 30)] 0, GetItem 1001 1 2 3,
      AdjustInventory 1001 (- 10) ''damaged'' 4, ReleaseReservation ''O1'',
      AdjustInventory 1001 (- 34) ''damaged'' 5])) 1001) = Some 3"
    by code_simp
  have "stock_invariant (run_operations inventory_manager
     [ReserveItems ''O1'' [(1001, 30), (1002, 30)] 0, GetItem 1001 1 2 3,
      AdjustInventory 1001 (- 10) ''damaged'' 4, ReleaseReservation ''O1'',
      AdjustInventory 1001 (- 34) ''damaged'' 5])"
    unfolding inventory_manager_def
    by (rule stock_invariant_admissible) (rule adm [unfolded inventory_manager_def])
  with adm val show ?thesis by simp
qed

text \<open>
  Both conditions on reservation requests are needed: a request that names an item twice
  is checked pair by pair against the same availability, and a negative quantity passes
  the availability check.
\<close>

lemma reserve_duplicate_breaks_invariant:
  "fst (reserve_items inventory_manager ''O1'' [(1001, 30), (1001, 30)] 0)
     = Inr (Reserved ''O1'' 1 [(1001, 30)]) \<and>
   \<not> stock_invariant
       (run_operations inventory_manager [ReserveItems ''O1'' [(1001, 30), (1001, 30)] 0])"
  by (simp add: run_operations_def stock_invariant_def reserve_items_def check_availability_def
      seeded_defs)

lemma reserve_negative_breaks_invariant:
  "fst (reserve_items inventory_manager ''O1'' [(1009, - 1)] 0)
     = Inr (Reserved ''O1'' 1 [(1009, - 1)]) \<and>
   \<not> stock_invariant (run_operations inventory_manager [ReserveItems ''O1'' [(1009, - 1)] 0])"
  by (simp add: run_operations_def stock_invariant_def reserve_items_def check_availability_def
      seeded_defs)

subsection \<open>Reservations on well-formed requests\<close>

text \<open>
  The first pair that fails the availability check ends the call with the state unchanged:
  with the structured failure when its item is known, with \<open>KeyError\<close> when it is not.
\<close>

lemma validate_items_first_failure:
  "\<forall>(j, k) \<in> set pre. check_availability m j k \<Longrightarrow> \<not> check_availability m i q \<Longrightarrow>
     validate_items m (pre @ (i, q) # post) =
       (case map_of (inventory m) i of
          None \<Rightarrow> Some (Inl KeyError)
        | Some it \<Rightarrow> Some (Inr (InsufficientInventory i q (stock it - reserved it))))"
  by (induction pre) auto

lemma reserve_items_first_failure:
  "map_of (reservations m) order_id = None \<Longrightarrow>
   \<forall>(j, k) \<in> set pre. check_availability m j k \<Longrightarrow> \<not> check_availability m i q \<Longrightarrow>
     reserve_items m order_id (pre @ (i, q) # post) t =
       (case map_of (inventory m) i of
          None \<Rightarrow> (Inl KeyError, m)
        | Some it \<Rightarrow> (Inr (InsufficientInventory i q (stock it - reserved it)), m))"
  by (simp add: reserve_items_def validate_items_first_failure split: option.splits)

text \<open>
  The round trip on a request that names no item twice: a successful reservation adds the
  requested quantity to \<open>reserved\<close> of each item, and releasing it gives every item back
  as it was.
\<close>

lemma reserve_release_roundtrip:
  assumes fresh: "map_of (reservations m) order_id = None"
    and d: "distinct (map fst reqs)"
    and ok: "fst (reserve_items m order_id reqs t) = Inr (Reserved order_id n details)"
  shows "details = reqs \<and>
    (\<forall>j. map_of (inventory (snd (reserve_items m order_id reqs t))) j =
       map_option (\<lambda>it. it\<lparr>reserved := reserved it + qty_of reqs j\<rparr>) (map_of (inventory m) j)) \<and>
    fst (release_reservation (snd (reserve_items m order_id reqs t)) order_id)
      = Inr (Released order_id (length reqs)) \<and>
    (\<forall>j. map_of (inventory (snd (release_reservation
         (snd (reserve_items m order_id reqs t)) order_id))) j = map_of (inventory m) j)"
proof -
  have valid: "validate_items m reqs = None"
  proof (cases "validate_items m reqs")
    case None
    then show ?thesis .
  next
    case (Some r)
    with fresh ok have "r = Inr (Reserved order_id n details)"
      by (simp add: reserve_items_def)
    moreover have "r \<noteq> Inr (Reserved order_id n details)"
      using Some by (induction m reqs rule: validate_items.induct)
        (auto split: if_splits option.splits)
    ultimately show ?thesis by simp
  qed
  have known: "fst ` set reqs \<subseteq> fst ` set (inventory m)"
  proof
    fix i assume "i \<in> fst ` set reqs"
    then obtain q where "(i, q) \<in> set reqs" by auto
    with validate_items_None [OF valid] have "check_availability m i q" by auto
    from check_availability_known [OF this] show "i \<in> fst ` set (inventory m)"
      using known_iff [of "inventory m" i] by auto
  qed
  from reserve_loop_known [OF d known, of "[]"] obtain m' where m':
    "reserve_loop m [] reqs = (None, reqs, m')"
    "reservations m' = reservations m"
    "map fst (inventory m') = map fst (inventory m)"
    "\<forall>j. map_of (inventory m') j =
       map_option (\<lambda>it. it\<lparr>reserved := reserved it + qty_of reqs j\<rparr>) (map_of (inventory m) j)"
    by auto
  let ?m1 = "snd (reserve_items m order_id reqs t)"
  have m1: "inventory ?m1 = inventory m'"
    "map_of (reservations ?m1) order_id = Some \<lparr>items = reqs, timestamp = t\<rparr>"
    "fst (reserve_items m order_id reqs t) = Inr (Reserved order_id (length reqs) reqs)"
    using fresh valid m'(1) by (simp_all add: reserve_items_def update_conv')
  have "set (map fst (inventory m')) = set (map fst (inventory m))"
    using m'(3) by simp
  then have known1: "fst ` set reqs \<subseteq> fst ` set (inventory ?m1)"
    using known m1(1) by simp
  from release_loop_known [OF d known1] obtain m2 where m2:
    "release_loop ?m1 reqs = (None, m2)"
    "\<forall>j. map_of (inventory m2) j =
       map_option (\<lambda>it. it\<lparr>reserved := reserved it - qty_of reqs j\<rparr>) (map_of (inventory ?m1) j)"
    by blast
  have rel: "fst (release_reservation ?m1 order_id) = Inr (Released order_id (length reqs))"
    "inventory (snd (release_reservation ?m1 order_id)) = inventory m2"
    using m1(2) m2(1) by (simp_all add: release_reservation_def)
  have restored: "map_of (inventory m2) j = map_of (inventory m) j" for j
    using m2(2) m'(4) m1(1) by (cases "map_of (inventory m) j") simp_all
  show ?thesis
    using ok m1 m'(4) rel restored by simp
qed

end
